theory Spec2Isabelle
  imports Main "HOL-Library.Word" "HOL-Library.Monad_Syntax"
begin

unbundle bit_operations_syntax

section \<open>The Teensy 4.1 data logger (teensy41-datalogger.ino)\<close>

text \<open>
  A shallow embedding of the sketch. The globals of the sketch (\<open>last_time_usec\<close>,
  \<open>char_count\<close>, \<open>psram\<close>, \<open>memptr\<close>, \<open>record_daq_data\<close>) are the fields of one
  record, together with what the sketch observes of its environment: the SD card (whether
  \<open>SD.begin\<close> succeeds, and the files on it) and the text sent to the serial port.
  \<open>unsigned long\<close> and \<open>unsigned int\<close> are 32 bits wide on the Teensy 4.1 and are
  modelled as \<open>32 word\<close>; the \<open>int\<close>s \<open>memptr\<close> and \<open>char_count\<close> stay far below
  \<open>2^31\<close> and are modelled as \<open>int\<close>. A function of the sketch that may not return
  (\<open>StoreDataSDCard\<close>, and \<open>loop\<close> through it) has an \<open>option\<close> result, \<open>None\<close>
  standing for a call that never returns.
\<close>

subsection \<open>Constants\<close>

definition SAMPLE_PERIOD_USEC :: "32 word" where
  "SAMPLE_PERIOD_USEC = 400"

definition EXTERNAL_MEM_SIZE :: int where
  "EXTERNAL_MEM_SIZE = 1024 * 1024 * 8"

subsection \<open>State and inputs\<close>

text \<open>
  \<open>psram\<close> is the store the array lives in, addressed by byte offset from \<open>&psram[0]\<close>.
  The array itself is the offsets below \<open>EXTERNAL_MEM_SIZE\<close>; the sketch checks no
  index, so an access at a larger offset goes to the bytes behind the array, and the
  store keeps them so that such an access stays visible.
\<close>

record logger =
  last_time_usec :: "32 word"
  char_count :: int
  psram :: "nat \<Rightarrow> char"
  memptr :: int
  record_daq_data :: bool
  sd_present :: bool
  sd_files :: "string \<rightharpoonup> string"
  serial :: "string list"

text \<open>
  What one pass of \<open>loop()\<close> reads from the hardware. \<open>digitalRead(START_SIG)\<close> stands
  at two places of \<open>loop()\<close> (the entry test and the exit test); \<open>start_sig_entry\<close> and
  \<open>start_sig_exit\<close> are the levels of the line at those two places.
\<close>

record tick =
  micros :: "32 word"
  start_sig_entry :: bool
  start_sig_exit :: bool
  wire0 :: "32 word"
  wire1 :: "32 word"
  wire2 :: "32 word"
  flywheel_dir :: bool
  starter_pwr :: bool
  adc_current :: "32 word"
  adc_fuel :: "32 word"
  adc_strain :: "32 word"

subsection \<open>printf conversions\<close>

text \<open>The decimal digits of an unsigned value, as \<open>%u\<close> prints them.\<close>

fun utoa :: "nat \<Rightarrow> string" where
  "utoa n = (if n < 10 then [''0123456789'' ! n]
             else utoa (n div 10) @ [''0123456789'' ! (n mod 10)])"

declare utoa.simps [simp del]

text \<open>\<open>%.Nu\<close> (and \<open>%0Nd\<close> for a value that is not negative): at least \<open>N\<close> digits,
  padded with zeros on the left.\<close>

definition zero_pad :: "nat \<Rightarrow> string \<Rightarrow> string" where
  "zero_pad w ds = replicate (w - length ds) CHR ''0'' @ ds"

definition fmt_u :: "nat \<Rightarrow> 32 word \<Rightarrow> string" where
  "fmt_u w v = zero_pad w (utoa (unat v))"

text \<open>The line of \<open>sprintf(..., "%.10lu,%.8lu,%u,%u,%.4u,%.4u,%.4u\n", ...)\<close>.\<close>

definition format_sample ::
  "32 word \<Rightarrow> 32 word \<Rightarrow> 32 word \<Rightarrow> 32 word \<Rightarrow> 32 word \<Rightarrow> 32 word \<Rightarrow> 32 word \<Rightarrow> string" where
  "format_sample time_usec fly_wheel_count fly_wheel_dir starter_pwr_k15
      starter_current fuel_htr_current starter_strain =
     fmt_u 10 time_usec @ '','' @ fmt_u 8 fly_wheel_count @ '','' @
     fmt_u 0 fly_wheel_dir @ '','' @ fmt_u 0 starter_pwr_k15 @ '','' @
     fmt_u 4 starter_current @ '','' @ fmt_u 4 fuel_htr_current @ '','' @
     fmt_u 4 starter_strain @ [CHR 0x0A]"

subsection \<open>\<open>read_S35770_Counter\<close>\<close>

text \<open>The three results of \<open>Wire.read()\<close> (\<open>wire0\<close>, \<open>wire1\<close>, \<open>wire2\<close> of the
  pass, as they stand in an \<open>unsigned long\<close>), composed most significant byte first.\<close>

definition read_S35770_Counter :: "tick \<Rightarrow> 32 word" where
  "read_S35770_Counter t = (push_bit 16 (wire0 t) OR push_bit 8 (wire1 t)) OR wire2 t"

subsection \<open>\<open>StoreDataSDCard\<close>\<close>

definition crlf :: string where
  "crlf = [CHR 0x0D, CHR 0x0A]"

definition header_line :: string where
  "header_line = ''time_usec,flywheel_count,flywheel_direction,starter_pwr_k15,starter_current,fuel_htr_current,starter_housing_strain''"

text \<open>
  \<open>while (1) { Serial.println("no-card detected"); }\<close>: the loop has no exit, so as a
  partial function it has no result.
\<close>

partial_function (option) no_card_loop :: "string list \<Rightarrow> string list option" where
  "no_card_loop out = no_card_loop (out @ [''no-card detected'' @ crlf])"

text \<open>\<open>snprintf(filename, sizeof(filename), "LOG_%04d.txt", n)\<close> with
  \<open>char filename[16]\<close>: at most 15 characters are kept. The counter \<open>n\<close> starts at 0
  and only goes up, one file at a time, so it is a \<open>nat\<close>.\<close>

definition log_name :: "nat \<Rightarrow> string" where
  "log_name n = take 15 (''LOG_'' @ zero_pad 4 (utoa n) @ ''.txt'')"

definition SD_exists :: "(string \<rightharpoonup> string) \<Rightarrow> string \<Rightarrow> bool" where
  "SD_exists fs name = (case fs name of None \<Rightarrow> False | Some _ \<Rightarrow> True)"

text \<open>The search \<open>while (SD.exists(filename)) { n++; snprintf(...); }\<close>, from \<open>n\<close> on.\<close>

partial_function (option) next_free :: "(string \<rightharpoonup> string) \<Rightarrow> nat \<Rightarrow> nat option" where
  "next_free fs n = (if SD_exists fs (log_name n) then next_free fs (n + 1) else Some n)"

text \<open>A file opened with \<open>FILE_WRITE\<close> is created when missing and written at its end.\<close>

definition file_append :: "(string \<rightharpoonup> string) \<Rightarrow> string \<Rightarrow> string \<Rightarrow> (string \<rightharpoonup> string)" where
  "file_append fs name txt = fs(name \<mapsto> (case fs name of None \<Rightarrow> [] | Some old \<Rightarrow> old) @ txt)"

text \<open>The bytes of \<open>for (int i=0;i<=memptr;i++) dataFile.print(psram[i])\<close>.\<close>

definition dumped :: "logger \<Rightarrow> string" where
  "dumped s = map (psram s) [0 ..< nat (memptr s + 1)]"

definition StoreDataSDCard :: "logger \<Rightarrow> logger option" where
  "StoreDataSDCard s =
     do {
       let out = serial s @
         [''Initializing SD card...'', ''Logging to SD Card Sample period[uS]: '',
          utoa (unat SAMPLE_PERIOD_USEC), [CHR 0x0A]];
       out \<leftarrow> (if \<not> sd_present s
                then no_card_loop (out @ [''Card failed, or not present'' @ crlf])
                else Some out);
       let out = out @ [''card initialized.'' @ crlf];
       n \<leftarrow> next_free (sd_files s) 0;
       let filename = log_name n;
       let out = out @ [filename @ crlf];
       let fs = file_append (sd_files s) filename (header_line @ crlf);
       let fs = file_append fs filename (dumped s);
       Some (s\<lparr>sd_files := fs, serial := out\<rparr>)
     }"

subsection \<open>\<open>setup\<close> and \<open>loop\<close>\<close>

text \<open>
  \<open>setup()\<close> (here \<open>setup_fn\<close>) configures the pins, waits for the serial port, starts
  the I2C bus and sets the first sample time; it does not touch the SD card. The model
  starts where the serial port has answered. Its arguments are what it finds: the value
  of \<open>micros()\<close>, the bytes in the external RAM, and the card.
\<close>

definition setup_fn :: "32 word \<Rightarrow> (nat \<Rightarrow> char) \<Rightarrow> bool \<Rightarrow> (string \<rightharpoonup> string) \<Rightarrow> logger" where
  "setup_fn now mem present fs =
     \<lparr>last_time_usec = now + SAMPLE_PERIOD_USEC, char_count = 0, psram = mem, memptr = 0,
      record_daq_data = False, sd_present = present, sd_files = fs, serial = []\<rparr>"

text \<open>The first half of \<open>loop()\<close>: the start signal (lines 191 to 201).\<close>

definition trigger_phase :: "tick \<Rightarrow> logger \<Rightarrow> logger option" where
  "trigger_phase t s =
     (if \<not> record_daq_data s \<and> start_sig_entry t then
        Some (s\<lparr>record_daq_data := True, memptr := 0\<rparr>)
      else if \<not> start_sig_exit t then
        do {
          s' \<leftarrow> StoreDataSDCard (s\<lparr>record_daq_data := False\<rparr>);
          Some (s'\<lparr>serial := serial s' @ [''Data Aquired!'' @ [CHR 0x0A]]\<rparr>)
        }
      else Some s)"

text \<open>The test \<open>time_usec >= (last_time_usec + SAMPLE_PERIOD_USEC)\<close> on \<open>unsigned long\<close>.\<close>

definition sample_due :: "32 word \<Rightarrow> 32 word \<Rightarrow> bool" where
  "sample_due time_usec last_usec = (last_usec + SAMPLE_PERIOD_USEC \<le> time_usec)"

text \<open>\<open>sprintf(&psram[a], ...)\<close> stores the characters from offset \<open>a\<close> on, then a
  terminating zero byte.\<close>

fun poke :: "(nat \<Rightarrow> char) \<Rightarrow> nat \<Rightarrow> string \<Rightarrow> (nat \<Rightarrow> char)" where
  "poke m a [] = m"
| "poke m a (c # cs) = poke (m(a := c)) (a + 1) cs"

definition sprintf_at :: "(nat \<Rightarrow> char) \<Rightarrow> nat \<Rightarrow> string \<Rightarrow> (nat \<Rightarrow> char)" where
  "sprintf_at m a txt = poke m a (txt @ [CHR 0x00])"

text \<open>The second half of \<open>loop()\<close>: the sample (lines 203 to 232).\<close>

definition sample_line :: "tick \<Rightarrow> string" where
  "sample_line t =
     format_sample (micros t) (read_S35770_Counter t)
       (of_bool (flywheel_dir t)) (of_bool (starter_pwr t))
       (adc_current t) (adc_fuel t) (adc_strain t)"

definition sample_phase :: "tick \<Rightarrow> logger \<Rightarrow> logger" where
  "sample_phase t s =
     (if record_daq_data s \<and> sample_due (micros t) (last_time_usec s) then
        let n = int (length (sample_line t));
            mp = memptr s + n
        in s\<lparr>last_time_usec := micros t,
             psram := sprintf_at (psram s) (nat (memptr s)) (sample_line t),
             char_count := n,
             memptr := (if mp - 1 > EXTERNAL_MEM_SIZE then 0 else mp)\<rparr>
      else s)"

definition loop :: "tick \<Rightarrow> logger \<Rightarrow> logger option" where
  "loop t s = do { s1 \<leftarrow> trigger_phase t s; Some (sample_phase t s1) }"

text \<open>\<open>loop()\<close> called once for each element of a list of inputs, in order.\<close>

fun run :: "tick list \<Rightarrow> logger \<Rightarrow> logger option" where
  "run [] s = Some s"
| "run (t # ts) s = do { s' \<leftarrow> loop t s; run ts s' }"

subsection \<open>Observing a run\<close>

text \<open>
  The states right after each Idle-to-Recording transition of a run: a pass of \<open>loop()\<close>
  takes the transition when \<open>record_daq_data\<close> is false before its first half and true
  after it.
\<close>

fun entries :: "tick list \<Rightarrow> logger \<Rightarrow> logger list option" where
  "entries [] s = Some []"
| "entries (t # ts) s =
     do {
       s1 \<leftarrow> trigger_phase t s;
       rest \<leftarrow> entries ts (sample_phase t s1);
       Some (if \<not> record_daq_data s \<and> record_daq_data s1 then s1 # rest else rest)
     }"

text \<open>
  The number of Idle-to-Recording transitions of a run, counted as far as the run goes:
  a pass whose first half never returns ends the count.
\<close>

fun transitions :: "tick list \<Rightarrow> logger \<Rightarrow> nat" where
  "transitions [] s = 0"
| "transitions (t # ts) s =
     (case trigger_phase t s of
        None \<Rightarrow> 0
      | Some s1 \<Rightarrow> (if \<not> record_daq_data s \<and> record_daq_data s1 then 1 else 0) +
          transitions ts (sample_phase t s1))"

text \<open>
  The levels \<open>digitalRead(START_SIG)\<close> returns during one pass, in order. The entry
  test reads the line only when \<open>record_daq_data\<close> is false (\<open>&&\<close> evaluates its
  right side only then); the exit test reads it whenever the entry test failed.
\<close>

definition start_sig_reads :: "tick \<Rightarrow> logger \<Rightarrow> bool list" where
  "start_sig_reads t s =
     (if record_daq_data s then [start_sig_exit t]
      else if start_sig_entry t then [start_sig_entry t]
      else [start_sig_entry t, start_sig_exit t])"

text \<open>The rising edges of a sampled signal whose level before the first sample is \<open>prev\<close>.\<close>

fun rising_edges :: "bool \<Rightarrow> bool list \<Rightarrow> nat" where
  "rising_edges prev [] = 0"
| "rising_edges prev (x # xs) = (if \<not> prev \<and> x then 1 else 0) + rising_edges x xs"

subsection \<open>Fixed-width decimal text as the specification words it\<close>

text \<open>
  A value zero-padded to \<open>w\<close> digits: the digit at place \<open>i\<close> from the left is
  \<open>n div 10^(w-1-i) mod 10\<close>.
\<close>

definition fixed_width_decimal :: "nat \<Rightarrow> nat \<Rightarrow> string" where
  "fixed_width_decimal w n =
     map (\<lambda>i. ''0123456789'' ! ((n div 10 ^ (w - 1 - i)) mod 10)) [0..<w]"

subsection \<open>The sample clock as the specification words it\<close>

text \<open>
  The specification's \<open>is_due\<close>: the elapsed time, by unsigned subtraction that wraps,
  is at least the period.
\<close>

definition is_due_wrap_safe :: "32 word \<Rightarrow> 32 word \<Rightarrow> bool" where
  "is_due_wrap_safe now last_usec = (SAMPLE_PERIOD_USEC \<le> now - last_usec)"

subsection \<open>Concrete inputs\<close>

text \<open>A pass of \<open>loop()\<close> at time \<open>us\<close> with the two levels of the start signal; the
  counter reads \<open>0xFFFFFF\<close>, the direction is high, the power is low and the three
  analog channels read 1023, 0 and 512.\<close>

definition tick_at :: "32 word \<Rightarrow> bool \<Rightarrow> bool \<Rightarrow> tick" where
  "tick_at us a b =
     \<lparr>micros = us, start_sig_entry = a, start_sig_exit = b,
      wire0 = 255, wire1 = 255, wire2 = 255, flywheel_dir = True, starter_pwr = False,
      adc_current = 1023, adc_fuel = 0, adc_strain = 512\<rparr>"

text \<open>The logger after \<open>setup()\<close> at time 0, the external RAM filled with \<open>#\<close>, the
  card empty; \<open>present\<close> says whether the card answers.\<close>

definition boot :: "bool \<Rightarrow> logger" where
  "boot present = setup_fn 0 (\<lambda>_. CHR ''#'') present Map.empty"

text \<open>A card that holds the logs with the suffixes 0, 1 and 2.\<close>

definition three_logs :: "string \<rightharpoonup> string" where
  "three_logs = [''LOG_0000.txt'' \<mapsto> ''a'', ''LOG_0001.txt'' \<mapsto> ''b'', ''LOG_0002.txt'' \<mapsto> ''c'']"

text \<open>Four passes with a steady start signal: high, high, low, high.\<close>

definition pulses :: "tick list" where
  "pulses = [tick_at 1000 True True, tick_at 1100 True True, tick_at 1200 False False,
             tick_at 1500 True True]"

text \<open>\<open>n\<close> passes 400 microseconds apart, from time 1000 on, the start signal high.\<close>

definition burst :: "nat \<Rightarrow> tick list" where
  "burst n = map (\<lambda>k. tick_at (1000 + 400 * of_nat k) True True) [0..<n]"

section \<open>Evaluation lemmas\<close>

lemma replicate_numeral_Cons: "replicate (numeral k) x = x # replicate (pred_numeral k) x"
  by (simp add: numeral_eq_Suc)

lemma upt_0_numeral: "[0..<numeral n] = 0 # [1..<numeral n]"
  by (simp add: upt_rec [of 0])

lemma upt_1_numeral:
  "[Suc 0..<numeral n] = (if Suc 0 < numeral n then Suc 0 # [2..<numeral n] else [])"
  by (subst upt_rec) (simp add: numeral_2_eq_2)

lemmas eval_simps = replicate_numeral_Cons upt_0_numeral upt_1_numeral utoa.simps

lemmas fmt_defs = format_sample_def fmt_u_def zero_pad_def

section \<open>The sample record as text\<close>

lemma length_zero_pad: "length (zero_pad w ds) = max w (length ds)"
  by (simp add: zero_pad_def)

lemma fmt_u_min_width: "w \<le> length (fmt_u w v)"
  by (simp add: fmt_u_def length_zero_pad)

lemma length_fixed_width_decimal: "length (fixed_width_decimal w n) = w"
  by (simp add: fixed_width_decimal_def)

lemma utoa_small: "n < 10 \<Longrightarrow> utoa n = [''0123456789'' ! n]"
  by (subst utoa.simps) simp

lemma utoa_large: "\<not> n < 10 \<Longrightarrow> utoa n = utoa (n div 10) @ [''0123456789'' ! (n mod 10)]"
  by (subst utoa.simps) simp

lemma zero_pad_utoa_step:
  assumes "0 < w"
  shows "zero_pad (Suc w) (utoa n) = zero_pad w (utoa (n div 10)) @ [''0123456789'' ! (n mod 10)]"
proof (cases "n < 10")
  case True
  from assms obtain v where w: "w = Suc v" by (cases w) auto
  have "replicate v CHR ''0'' @ ''0'' = replicate (Suc v) CHR ''0''"
    by (simp only: replicate_append_same) simp
  with True show ?thesis
    by (simp add: utoa_small zero_pad_def w)
next
  case False
  then show ?thesis by (simp add: utoa_large zero_pad_def)
qed

text \<open>Padding the digits of \<open>n\<close> to a width that holds them gives the fixed-width
  decimal.\<close>

lemma zero_pad_utoa_fixed:
  "0 < w \<Longrightarrow> n < 10 ^ w \<Longrightarrow> zero_pad w (utoa n) = fixed_width_decimal w n"
proof (induction w arbitrary: n)
  case 0
  then show ?case by simp
next
  case (Suc w)
  show ?case
  proof (cases "w = 0")
    case True
    with Suc.prems show ?thesis
      by (simp add: utoa_small zero_pad_def fixed_width_decimal_def)
  next
    case False
    then have w: "0 < w" by simp
    from Suc.prems have "n div 10 < 10 ^ w"
      by (simp add: less_mult_imp_div_less mult.commute)
    from Suc.IH [OF w this]
    have IH: "zero_pad w (utoa (n div 10)) = fixed_width_decimal w (n div 10)" .
    have "map (\<lambda>i. ''0123456789'' ! ((n div 10 ^ (Suc w - 1 - i)) mod 10)) [0..<w] =
          map (\<lambda>i. ''0123456789'' ! ((n div 10 div 10 ^ (w - 1 - i)) mod 10)) [0..<w]"
    proof (rule map_cong [OF refl])
      fix i assume "i \<in> set [0..<w]"
      then have "Suc w - 1 - i = Suc (w - 1 - i)" by auto
      then show "''0123456789'' ! ((n div 10 ^ (Suc w - 1 - i)) mod 10) =
          ''0123456789'' ! ((n div 10 div 10 ^ (w - 1 - i)) mod 10)"
        by (simp add: div_mult2_eq)
    qed
    then have "fixed_width_decimal (Suc w) n =
        fixed_width_decimal w (n div 10) @ [''0123456789'' ! (n mod 10)]"
      by (simp add: fixed_width_decimal_def)
    with IH zero_pad_utoa_step [OF w, of n] show ?thesis by simp
  qed
qed

lemma fmt_u_fixed:
  "0 < w \<Longrightarrow> unat v < 10 ^ w \<Longrightarrow> fmt_u w v = fixed_width_decimal w (unat v)"
  by (simp add: fmt_u_def zero_pad_utoa_fixed)

lemma fmt_u_plain:
  "unat v < 10 \<Longrightarrow> fmt_u 0 v = fixed_width_decimal 1 (unat v)"
  by (simp add: fmt_u_def zero_pad_def utoa_small fixed_width_decimal_def)

lemma unat_32_decimal: "unat (t :: 32 word) < 10 ^ 10"
proof -
  have "unat t < 2 ^ 32"
    by (rule order_less_le_trans [OF unsigned_less]) simp
  then show ?thesis by simp
qed

lemma format_sample_fixed:
  assumes "unat c < 10 ^ 8" "unat d < 10" "unat p < 10"
    "unat a < 10 ^ 4" "unat f < 10 ^ 4" "unat g < 10 ^ 4"
  shows "format_sample t c d p a f g =
     fixed_width_decimal 10 (unat t) @ '','' @ fixed_width_decimal 8 (unat c) @ '','' @
     fixed_width_decimal 1 (unat d) @ '','' @ fixed_width_decimal 1 (unat p) @ '','' @
     fixed_width_decimal 4 (unat a) @ '','' @ fixed_width_decimal 4 (unat f) @ '','' @
     fixed_width_decimal 4 (unat g) @ [CHR 0x0A]"
  unfolding format_sample_def
  using assms unat_32_decimal [of t]
  by (simp only: fmt_u_fixed fmt_u_plain zero_less_numeral)

text \<open>
  C8. For every time stamp, every counter value below \<open>10^8\<close> (the counter has 24
  bits), direction and power below 10 (they are 0 or 1) and analog values below
  \<open>10^4\<close> (they have 10 bits), \<open>format_sample\<close> gives the time zero-padded to
  exactly 10 digits, the counter to 8, direction and power as one digit each, each analog
  value zero-padded to 4, with commas between and a newline at the end: 39 characters.
  The sample (time_usec = 1234567890, flywheel_count = 16777215, dir = 1, pwr = 0,
  cur = 1023, fuel = 0, strain = 512) gives exactly
  \<open>1234567890,16777215,1,0,1023,0000,0512\<close> and a newline; a sample of small values
  shows the leading zeros in every padded field.
\<close>

theorem format_sample_fixed_widths:
  "(unat c < 10 ^ 8 \<and> unat d < 10 \<and> unat p < 10 \<and>
    unat a < 10 ^ 4 \<and> unat f < 10 ^ 4 \<and> unat g < 10 ^ 4 \<longrightarrow>
      format_sample t c d p a f g =
        fixed_width_decimal 10 (unat t) @ '','' @ fixed_width_decimal 8 (unat c) @ '','' @
        fixed_width_decimal 1 (unat d) @ '','' @ fixed_width_decimal 1 (unat p) @ '','' @
        fixed_width_decimal 4 (unat a) @ '','' @ fixed_width_decimal 4 (unat f) @ '','' @
        fixed_width_decimal 4 (unat g) @ [CHR 0x0A]
      \<and> length (format_sample t c d p a f g) = 39)
   \<and> format_sample 1234567890 16777215 1 0 1023 0 512 =
        ''1234567890,16777215,1,0,1023,0000,0512'' @ [CHR 0x0A]
   \<and> format_sample 7 42 0 1 5 60 0 =
        ''0000000007,00000042,0,1,0005,0060,0000'' @ [CHR 0x0A]"
proof (intro conjI impI)
  assume h: "unat c < 10 ^ 8 \<and> unat d < 10 \<and> unat p < 10 \<and>
    unat a < 10 ^ 4 \<and> unat f < 10 ^ 4 \<and> unat g < 10 ^ 4"
  then show fixed: "format_sample t c d p a f g =
        fixed_width_decimal 10 (unat t) @ '','' @ fixed_width_decimal 8 (unat c) @ '','' @
        fixed_width_decimal 1 (unat d) @ '','' @ fixed_width_decimal 1 (unat p) @ '','' @
        fixed_width_decimal 4 (unat a) @ '','' @ fixed_width_decimal 4 (unat f) @ '','' @
        fixed_width_decimal 4 (unat g) @ [CHR 0x0A]"
    by (intro format_sample_fixed) simp_all
  show "length (format_sample t c d p a f g) = 39"
    unfolding fixed by (simp add: length_fixed_width_decimal)
next
  show "format_sample 1234567890 16777215 1 0 1023 0 512 =
        ''1234567890,16777215,1,0,1023,0000,0512'' @ [CHR 0x0A]"
    by (simp add: fmt_defs eval_simps)
next
  show "format_sample 7 42 0 1 5 60 0 =
        ''0000000007,00000042,0,1,0005,0060,0000'' @ [CHR 0x0A]"
    by (simp add: fmt_defs eval_simps)
qed

theorem format_sample_fixed_widths_witness:
  "unat (16777215 :: 32 word) < 10 ^ 8 \<and> unat (1 :: 32 word) < 10 \<and> unat (0 :: 32 word) < 10 \<and>
   unat (1023 :: 32 word) < 10 ^ 4 \<and> unat (0 :: 32 word) < 10 ^ 4 \<and> unat (512 :: 32 word) < 10 ^ 4 \<and>
   format_sample 1234567890 16777215 1 0 1023 0 512 =
     fixed_width_decimal 10 1234567890 @ '','' @ fixed_width_decimal 8 16777215 @ '','' @
     fixed_width_decimal 1 1 @ '','' @ fixed_width_decimal 1 0 @ '','' @
     fixed_width_decimal 4 1023 @ '','' @ fixed_width_decimal 4 0 @ '','' @
     fixed_width_decimal 4 512 @ [CHR 0x0A] \<and>
   fixed_width_decimal 10 1234567890 = ''1234567890'' \<and>
   fixed_width_decimal 8 16777215 = ''16777215'' \<and>
   fixed_width_decimal 1 1 = ''1'' \<and> fixed_width_decimal 1 0 = ''0'' \<and>
   fixed_width_decimal 4 1023 = ''1023'' \<and> fixed_width_decimal 4 0 = ''0000'' \<and>
   fixed_width_decimal 4 512 = ''0512'' \<and>
   length (format_sample 1234567890 16777215 1 0 1023 0 512) = 39"
proof -
  have h: "unat (16777215 :: 32 word) < 10 ^ 8 \<and> unat (1 :: 32 word) < 10 \<and>
    unat (0 :: 32 word) < 10 \<and> unat (1023 :: 32 word) < 10 ^ 4 \<and>
    unat (0 :: 32 word) < 10 ^ 4 \<and> unat (512 :: 32 word) < 10 ^ 4"
    by simp
  with format_sample_fixed_widths [of 16777215 1 0 1023 0 512 1234567890]
  have "format_sample 1234567890 16777215 1 0 1023 0 512 =
     fixed_width_decimal 10 (unat (1234567890 :: 32 word)) @ '','' @
     fixed_width_decimal 8 (unat (16777215 :: 32 word)) @ '','' @
     fixed_width_decimal 1 (unat (1 :: 32 word)) @ '','' @
     fixed_width_decimal 1 (unat (0 :: 32 word)) @ '','' @
     fixed_width_decimal 4 (unat (1023 :: 32 word)) @ '','' @
     fixed_width_decimal 4 (unat (0 :: 32 word)) @ '','' @
     fixed_width_decimal 4 (unat (512 :: 32 word)) @ [CHR 0x0A]"
    "length (format_sample 1234567890 16777215 1 0 1023 0 512) = 39"
    by blast+
  moreover have "fixed_width_decimal 10 1234567890 = ''1234567890''"
    "fixed_width_decimal 8 16777215 = ''16777215''"
    "fixed_width_decimal 1 1 = ''1''" "fixed_width_decimal 1 0 = ''0''"
    "fixed_width_decimal 4 1023 = ''1023''" "fixed_width_decimal 4 0 = ''0000''"
    "fixed_width_decimal 4 512 = ''0512''"
    by (simp_all add: fixed_width_decimal_def eval_simps)
  ultimately show ?thesis using h by simp
qed

section \<open>The sample clock\<close>

lemma sample_due_unat: "sample_due now l = ((unat l + 400) mod 2 ^ 32 \<le> unat now)"
  by (simp add: sample_due_def SAMPLE_PERIOD_USEC_def word_le_nat_alt unat_word_ariths)

text \<open>
  C3, at the failing inputs. The sample-due test of \<open>loop()\<close> adds the period to
  \<open>last_time_usec\<close> in 32 bits and compares directly. Sixteen microseconds after a
  sample taken at 4294967040 the test already holds, because \<open>last_time_usec + 400\<close>
  has wrapped to 144. And 550 microseconds after a sample taken at 4294966796, with the
  clock wrapped to 50, the test does not hold although the period has elapsed; it stays
  false until the clock reaches 4294967196. The wrap-safe test on the elapsed time gives
  the opposite answer at both inputs.
\<close>

theorem sample_due_not_wrap_safe:
  "sample_due 4294967056 4294967040 \<and> \<not> is_due_wrap_safe 4294967056 4294967040
   \<and> \<not> sample_due 50 4294966796 \<and> is_due_wrap_safe 50 4294966796"
  by (simp add: sample_due_def is_due_wrap_safe_def SAMPLE_PERIOD_USEC_def)

text \<open>Where the two tests agree: exactly when \<open>last + 400\<close> overflows and the clock has
  wrapped since the last sample, or neither has happened.\<close>

lemma agreement_region:
  "(sample_due now l = is_due_wrap_safe now l) = ((unat l + 400 < 2 ^ 32) = (l \<le> now))"
proof -
  have n: "unat now < 2 ^ 32" and m: "unat l < 2 ^ 32"
    by (rule order_less_le_trans [OF unsigned_less], simp)+
  have w: "is_due_wrap_safe now l =
      (400 \<le> (if unat l \<le> unat now then unat now - unat l else unat now + 2 ^ 32 - unat l))"
    by (simp add: is_due_wrap_safe_def SAMPLE_PERIOD_USEC_def word_le_nat_alt unat_sub_if')
  have d: "sample_due now l =
      ((if unat l + 400 < 2 ^ 32 then unat l + 400 else unat l + 400 - 2 ^ 32) \<le> unat now)"
    using m by (simp add: sample_due_unat mod_if)
  show ?thesis
    unfolding w d word_le_nat_alt using n m by (auto split: if_splits)
qed

section \<open>\<open>StoreDataSDCard\<close>\<close>

subsection \<open>The card is missing\<close>

lemma no_card_loop_not_Some:
  assumes "no_card_loop out = Some y"
  shows False
  by (rule no_card_loop.raw_induct [where P = "\<lambda>_ _. False", OF _ assms]) blast

lemma no_card_loop_None: "no_card_loop out = None"
  using no_card_loop_not_Some by (cases "no_card_loop out") auto

lemma StoreDataSDCard_no_card: "\<not> sd_present s \<Longrightarrow> StoreDataSDCard s = None"
  by (simp add: StoreDataSDCard_def no_card_loop_None)

subsection \<open>The card is there\<close>

lemma file_append_fresh:
  "\<not> SD_exists fs name \<Longrightarrow>
   file_append (file_append fs name a) name b = fs(name \<mapsto> a @ b)"
  by (auto simp: file_append_def SD_exists_def split: option.splits)

lemma StoreDataSDCard_card:
  "sd_present s \<Longrightarrow> next_free (sd_files s) 0 = Some n \<Longrightarrow>
   \<not> SD_exists (sd_files s) (log_name n) \<Longrightarrow>
   StoreDataSDCard s =
     Some (s\<lparr>sd_files := (sd_files s)(log_name n \<mapsto> header_line @ crlf @ dumped s),
            serial := serial s @
              [''Initializing SD card...'', ''Logging to SD Card Sample period[uS]: '',
               utoa (unat SAMPLE_PERIOD_USEC), [CHR 0x0A], ''card initialized.'' @ crlf,
               log_name n @ crlf]\<rparr>)"
  by (simp add: StoreDataSDCard_def Let_def file_append_fresh)

lemma StoreDataSDCard_frame:
  "StoreDataSDCard s = Some s' \<Longrightarrow>
     psram s' = psram s \<and> memptr s' = memptr s \<and> record_daq_data s' = record_daq_data s \<and>
     last_time_usec s' = last_time_usec s \<and> char_count s' = char_count s \<and>
     sd_present s' = sd_present s"
  by (auto simp: StoreDataSDCard_def Let_def bind_eq_Some_conv split: if_splits)

lemma StoreDataSDCard_serial: "StoreDataSDCard s = Some s' \<Longrightarrow> serial s' \<noteq> serial s"
  by (auto simp: StoreDataSDCard_def Let_def bind_eq_Some_conv no_card_loop_None
      split: if_splits)

subsection \<open>The search for a file name\<close>

text \<open>From \<open>n\<close> on, the search stops at the first name that is not on the card, provided
  there is one.\<close>

lemma next_free_least:
  "\<not> SD_exists fs (log_name m) \<Longrightarrow> n \<le> m \<Longrightarrow>
   \<exists>k. next_free fs n = Some k \<and> n \<le> k \<and> k \<le> m \<and> \<not> SD_exists fs (log_name k) \<and>
       (\<forall>j. n \<le> j \<and> j < k \<longrightarrow> SD_exists fs (log_name j))"
proof (induction "m - n" arbitrary: n)
  case 0
  then have "n = m" by simp
  with 0 show ?case by (subst next_free.simps) auto
next
  case (Suc d)
  show ?case
  proof (cases "SD_exists fs (log_name n)")
    case False
    with Suc.prems show ?thesis by (subst next_free.simps) auto
  next
    case True
    with Suc.prems have "n \<noteq> m" by auto
    with Suc have "d = m - (n + 1)" "n + 1 \<le> m" by auto
    from Suc.hyps(1) [OF this(1) Suc.prems(1) this(2)]
    obtain k where k: "next_free fs (n + 1) = Some k" "n + 1 \<le> k" "k \<le> m"
      "\<not> SD_exists fs (log_name k)"
      "\<forall>j. n + 1 \<le> j \<and> j < k \<longrightarrow> SD_exists fs (log_name j)"
      by blast
    have "\<forall>j. n \<le> j \<and> j < k \<longrightarrow> SD_exists fs (log_name j)"
    proof (intro allI impI)
      fix j assume "n \<le> j \<and> j < k"
      then consider "j = n" | "n + 1 \<le> j \<and> j < k" by linarith
      then show "SD_exists fs (log_name j)" using True k(5) by cases auto
    qed
    with k True show ?thesis by (subst next_free.simps) auto
  qed
qed

lemma three_logs_exist:
  "SD_exists three_logs (log_name 0)" "SD_exists three_logs (log_name 1)"
  "SD_exists three_logs (log_name 2)" "\<not> SD_exists three_logs (log_name 3)"
  "log_name 3 = ''LOG_0003.txt''"
  by (simp_all add: three_logs_def SD_exists_def log_name_def zero_pad_def eval_simps)

lemma log_name_four_digits:
  assumes "j < 10000"
  shows "log_name j = ''LOG_'' @ fixed_width_decimal 4 j @ ''.txt''"
proof -
  from assms have "zero_pad 4 (utoa j) = fixed_width_decimal 4 j"
    by (intro zero_pad_utoa_fixed) simp_all
  then show ?thesis
    by (simp add: log_name_def length_fixed_width_decimal)
qed

text \<open>
  C9. The search of \<open>StoreDataSDCard\<close> starts at suffix 0 and goes up by one while the
  name is on the card. Whenever some name is unused, it ends with the smallest suffix
  \<open>k\<close> whose name is unused (every smaller suffix is on the card), and the file is
  created under that name. The name of a suffix below 10000 is \<open>LOG_\<close>, the suffix
  zero-padded to four decimal digits, and \<open>.txt\<close>; a longer suffix takes the digits it
  needs, and the 16-byte buffer keeps 15 characters. With the suffixes 0, 1 and 2 on the
  card the name is \<open>LOG_0003.txt\<close>.
\<close>

theorem allocate_smallest_unused:
  "\<not> SD_exists fs (log_name m) \<Longrightarrow>
   (\<exists>k. next_free fs 0 = Some k \<and> k \<le> m \<and> \<not> SD_exists fs (log_name k) \<and>
       (\<forall>j. j < k \<longrightarrow> SD_exists fs (log_name j)) \<and>
       (\<forall>s. sd_present s \<and> sd_files s = fs \<longrightarrow>
          (\<exists>s'. StoreDataSDCard s = Some s' \<and>
                sd_files s' = fs(log_name k \<mapsto> header_line @ crlf @ dumped s)))) \<and>
   (\<forall>j. j < 10000 \<longrightarrow> log_name j = ''LOG_'' @ fixed_width_decimal 4 j @ ''.txt'') \<and>
   log_name 0 = ''LOG_0000.txt'' \<and> log_name 7 = ''LOG_0007.txt'' \<and>
   log_name 42 = ''LOG_0042.txt'' \<and> log_name 9999 = ''LOG_9999.txt'' \<and>
   log_name 12345 = ''LOG_12345.txt'' \<and> log_name 10000000 = ''LOG_10000000.tx''"
proof -
  assume free: "\<not> SD_exists fs (log_name m)"
  from next_free_least [OF free, of 0]
  obtain k where k: "next_free fs 0 = Some k" "k \<le> m" "\<not> SD_exists fs (log_name k)"
    "\<forall>j. j < k \<longrightarrow> SD_exists fs (log_name j)"
    by auto
  have "\<forall>s. sd_present s \<and> sd_files s = fs \<longrightarrow>
          (\<exists>s'. StoreDataSDCard s = Some s' \<and>
                sd_files s' = fs(log_name k \<mapsto> header_line @ crlf @ dumped s))"
    using k(1,3) by (auto simp: StoreDataSDCard_card)
  with k have search: "\<exists>k. next_free fs 0 = Some k \<and> k \<le> m \<and> \<not> SD_exists fs (log_name k) \<and>
       (\<forall>j. j < k \<longrightarrow> SD_exists fs (log_name j)) \<and>
       (\<forall>s. sd_present s \<and> sd_files s = fs \<longrightarrow>
          (\<exists>s'. StoreDataSDCard s = Some s' \<and>
                sd_files s' = fs(log_name k \<mapsto> header_line @ crlf @ dumped s)))"
    by blast
  have names: "\<forall>j. j < 10000 \<longrightarrow> log_name j = ''LOG_'' @ fixed_width_decimal 4 j @ ''.txt''"
    by (simp add: log_name_four_digits)
  have "log_name 0 = ''LOG_0000.txt''" "log_name 7 = ''LOG_0007.txt''"
    "log_name 42 = ''LOG_0042.txt''" "log_name 9999 = ''LOG_9999.txt''"
    "log_name 12345 = ''LOG_12345.txt''" "log_name 10000000 = ''LOG_10000000.tx''"
    by (simp_all add: log_name_def zero_pad_def eval_simps)
  with search names show ?thesis by blast
qed

theorem allocate_smallest_unused_witness:
  "\<not> SD_exists three_logs (log_name 3) \<and> next_free three_logs 0 = Some 3
   \<and> (3 :: nat) < 10000 \<and> fixed_width_decimal 4 3 = ''0003''
   \<and> log_name 3 = ''LOG_0003.txt''"
proof -
  from allocate_smallest_unused [of three_logs 3] three_logs_exist(4)
  obtain k where k: "next_free three_logs 0 = Some k" "k \<le> 3"
    "\<not> SD_exists three_logs (log_name k)"
    and names: "\<forall>j. j < 10000 \<longrightarrow> log_name j = ''LOG_'' @ fixed_width_decimal 4 j @ ''.txt''"
    by blast
  from k(2) have "k = 0 \<or> k = 1 \<or> k = 2 \<or> k = 3" by arith
  with k(3) three_logs_exist(1-3) have "k = 3" by auto
  moreover have d: "fixed_width_decimal 4 3 = ''0003''"
    by (simp add: fixed_width_decimal_def eval_simps)
  moreover from names have "log_name 3 = ''LOG_'' @ fixed_width_decimal 4 3 @ ''.txt''"
    by simp
  ultimately show ?thesis using k(1) three_logs_exist(4) by simp
qed

lemma SD_exists_upd: "SD_exists (fs(a \<mapsto> x)) b = (b = a \<or> SD_exists fs b)"
  by (simp add: SD_exists_def)

lemma drain_creates:
  assumes "sd_present s" "next_free (sd_files s) 0 = Some n" "\<not> SD_exists (sd_files s) (log_name n)"
  shows "\<exists>d. StoreDataSDCard s = Some d \<and>
     sd_files d = (sd_files s)(log_name n \<mapsto> header_line @ crlf @ dumped s) \<and>
     psram d = psram s \<and> memptr d = memptr s \<and> record_daq_data d = record_daq_data s \<and>
     sd_present d"
  using assms by (simp add: StoreDataSDCard_card)

text \<open>
  C10. \<open>StoreDataSDCard\<close> changes neither \<open>psram\<close> nor \<open>memptr\<close> nor
  \<open>record_daq_data\<close>. With the card present and two distinct unused names, two calls in
  a row both return; each finds a name that was not on the card before it (so the two
  names differ), and each creates its file with the same text: the header line and the
  bytes \<open>dumped\<close> of the unchanged buffer.
\<close>

theorem StoreDataSDCard_twice:
  "(\<forall>s'. StoreDataSDCard s = Some s' \<longrightarrow>
       psram s' = psram s \<and> memptr s' = memptr s \<and> record_daq_data s' = record_daq_data s)
   \<and> (sd_present s \<and> \<not> SD_exists (sd_files s) (log_name a) \<and>
        \<not> SD_exists (sd_files s) (log_name b) \<and> log_name a \<noteq> log_name b \<longrightarrow>
       (\<exists>s1 s2 k1 k2.
          StoreDataSDCard s = Some s1 \<and> StoreDataSDCard s1 = Some s2 \<and>
          next_free (sd_files s) 0 = Some k1 \<and> next_free (sd_files s1) 0 = Some k2 \<and>
          log_name k1 \<noteq> log_name k2 \<and>
          \<not> SD_exists (sd_files s) (log_name k1) \<and> \<not> SD_exists (sd_files s1) (log_name k2) \<and>
          sd_files s1 = (sd_files s)(log_name k1 \<mapsto> header_line @ crlf @ dumped s) \<and>
          sd_files s2 = (sd_files s1)(log_name k2 \<mapsto> header_line @ crlf @ dumped s) \<and>
          psram s2 = psram s \<and> memptr s2 = memptr s \<and> record_daq_data s2 = record_daq_data s))"
proof (rule conjI)
  show "\<forall>s'. StoreDataSDCard s = Some s' \<longrightarrow>
       psram s' = psram s \<and> memptr s' = memptr s \<and> record_daq_data s' = record_daq_data s"
    by (simp add: StoreDataSDCard_frame)
next
  show "sd_present s \<and> \<not> SD_exists (sd_files s) (log_name a) \<and>
        \<not> SD_exists (sd_files s) (log_name b) \<and> log_name a \<noteq> log_name b \<longrightarrow>
       (\<exists>s1 s2 k1 k2.
          StoreDataSDCard s = Some s1 \<and> StoreDataSDCard s1 = Some s2 \<and>
          next_free (sd_files s) 0 = Some k1 \<and> next_free (sd_files s1) 0 = Some k2 \<and>
          log_name k1 \<noteq> log_name k2 \<and>
          \<not> SD_exists (sd_files s) (log_name k1) \<and> \<not> SD_exists (sd_files s1) (log_name k2) \<and>
          sd_files s1 = (sd_files s)(log_name k1 \<mapsto> header_line @ crlf @ dumped s) \<and>
          sd_files s2 = (sd_files s1)(log_name k2 \<mapsto> header_line @ crlf @ dumped s) \<and>
          psram s2 = psram s \<and> memptr s2 = memptr s \<and> record_daq_data s2 = record_daq_data s)"
  proof (rule impI)
  assume h: "sd_present s \<and> \<not> SD_exists (sd_files s) (log_name a) \<and>
        \<not> SD_exists (sd_files s) (log_name b) \<and> log_name a \<noteq> log_name b"
  let ?txt = "header_line @ crlf @ dumped s"
  from h next_free_least [of "sd_files s" a 0]
  obtain k1 where k1: "next_free (sd_files s) 0 = Some k1"
    "\<not> SD_exists (sd_files s) (log_name k1)"
    by auto
  define s1 where "s1 = s\<lparr>sd_files := (sd_files s)(log_name k1 \<mapsto> ?txt),
            serial := serial s @
              [''Initializing SD card...'', ''Logging to SD Card Sample period[uS]: '',
               utoa (unat SAMPLE_PERIOD_USEC), [CHR 0x0A], ''card initialized.'' @ crlf,
               log_name k1 @ crlf]\<rparr>"
  have r1: "StoreDataSDCard s = Some s1"
    using h k1 by (simp add: StoreDataSDCard_card s1_def)
  have f1: "sd_files s1 = (sd_files s)(log_name k1 \<mapsto> ?txt)" "sd_present s1"
    "dumped s1 = dumped s"
    using h by (simp_all add: s1_def dumped_def)
  obtain c where c: "\<not> SD_exists (sd_files s1) (log_name c)"
  proof (cases "log_name k1 = log_name a")
    case True
    with h have "\<not> SD_exists (sd_files s1) (log_name b)"
      by (auto simp: f1 SD_exists_upd)
    then show ?thesis by (rule that)
  next
    case False
    with h have "\<not> SD_exists (sd_files s1) (log_name a)"
      by (auto simp: f1 SD_exists_upd)
    then show ?thesis by (rule that)
  qed
  from c next_free_least [of "sd_files s1" c 0]
  obtain k2 where k2: "next_free (sd_files s1) 0 = Some k2"
    "\<not> SD_exists (sd_files s1) (log_name k2)"
    by auto
  from StoreDataSDCard_card [OF f1(2) k2]
  obtain s2 where r2: "StoreDataSDCard s1 = Some s2"
    and f2: "sd_files s2 = (sd_files s1)(log_name k2 \<mapsto> ?txt)"
    by (simp add: f1(3))
  from k2(2) have ne: "log_name k1 \<noteq> log_name k2"
    by (auto simp: f1 SD_exists_upd)
  from StoreDataSDCard_frame [OF r1] StoreDataSDCard_frame [OF r2]
  have "psram s2 = psram s \<and> memptr s2 = memptr s \<and> record_daq_data s2 = record_daq_data s"
    by simp
  with r1 r2 ne k1 k2 f1(1) f2
  show "\<exists>s1 s2 k1 k2.
          StoreDataSDCard s = Some s1 \<and> StoreDataSDCard s1 = Some s2 \<and>
          next_free (sd_files s) 0 = Some k1 \<and> next_free (sd_files s1) 0 = Some k2 \<and>
          log_name k1 \<noteq> log_name k2 \<and>
          \<not> SD_exists (sd_files s) (log_name k1) \<and> \<not> SD_exists (sd_files s1) (log_name k2) \<and>
          sd_files s1 = (sd_files s)(log_name k1 \<mapsto> header_line @ crlf @ dumped s) \<and>
          sd_files s2 = (sd_files s1)(log_name k2 \<mapsto> header_line @ crlf @ dumped s) \<and>
          psram s2 = psram s \<and> memptr s2 = memptr s \<and> record_daq_data s2 = record_daq_data s"
    by blast
  qed
qed

section \<open>Concrete passes of \<open>loop\<close>\<close>

lemma counter_val: "read_S35770_Counter (tick_at us a b) = 16777215"
  by (simp add: read_S35770_Counter_def tick_at_def)

lemma line1000: "sample_line (tick_at 1000 a b) = ''0000001000,16777215,1,0,1023,0000,0512'' @ [CHR 0x0A]"
  by (simp add: sample_line_def counter_val) (simp add: tick_at_def fmt_defs eval_simps)

lemma boot_fields:
  "last_time_usec (boot p) = 400" "char_count (boot p) = 0" "psram (boot p) = (\<lambda>_. CHR ''#'')"
  "memptr (boot p) = 0" "record_daq_data (boot p) = False" "sd_present (boot p) = p"
  "sd_files (boot p) = Map.empty" "serial (boot p) = []"
  by (simp_all add: boot_def setup_fn_def SAMPLE_PERIOD_USEC_def)

lemma tick_fields:
  "micros (tick_at us a b) = us" "start_sig_entry (tick_at us a b) = a"
  "start_sig_exit (tick_at us a b) = b"
  by (simp_all add: tick_at_def)

lemma log_names: "log_name 0 = ''LOG_0000.txt''" "log_name (Suc 0) = ''LOG_0001.txt''"
  by (simp_all add: log_name_def zero_pad_def eval_simps)

lemma next_free_none_used: "\<not> SD_exists fs (log_name 0) \<Longrightarrow> next_free fs 0 = Some 0"
  by (subst next_free.simps) simp

lemma next_free_one_used:
  "SD_exists fs (log_name 0) \<Longrightarrow> \<not> SD_exists fs (log_name 1) \<Longrightarrow> next_free fs 0 = Some 1"
  by (subst next_free.simps, simp, subst next_free.simps, simp)

lemma loop_drain:
  assumes "\<not> (\<not> record_daq_data s \<and> start_sig_entry t)" "\<not> start_sig_exit t"
    "StoreDataSDCard (s\<lparr>record_daq_data := False\<rparr>) = Some d"
  shows "loop t s = Some (d\<lparr>serial := serial d @ [''Data Aquired!'' @ [CHR 0x0A]]\<rparr>)"
proof -
  have "trigger_phase t s =
      Some (d\<lparr>serial := serial d @ [''Data Aquired!'' @ [CHR 0x0A]]\<rparr>)"
    unfolding trigger_phase_def if_not_P [OF assms(1)] using assms(2,3) by simp
  moreover from StoreDataSDCard_frame [OF assms(3)] have "\<not> record_daq_data d" by simp
  ultimately show ?thesis by (simp add: loop_def sample_phase_def)
qed

lemma loop_first_sample:
  "\<exists>s'. loop (tick_at 1000 True b) (boot p) = Some s' \<and> record_daq_data s' \<and> memptr s' = 39
     \<and> char_count s' = 39 \<and> last_time_usec s' = 1000 \<and> sd_present s' = p \<and> sd_files s' = Map.empty
     \<and> map (psram s') [0..<40] = ''0000001000,16777215,1,0,1023,0000,0512'' @ [CHR 0x0A, CHR 0x00]"
  by (simp add: loop_def trigger_phase_def sample_phase_def boot_fields tick_fields line1000
      sample_due_def SAMPLE_PERIOD_USEC_def Let_def EXTERNAL_MEM_SIZE_def sprintf_at_def eval_simps)

theorem StoreDataSDCard_twice_witness:
  "sd_present (boot True) \<and> \<not> SD_exists (sd_files (boot True)) (log_name 0) \<and>
   \<not> SD_exists (sd_files (boot True)) (log_name 1) \<and> log_name 0 \<noteq> log_name 1 \<and>
   (\<exists>s1 s2. StoreDataSDCard (boot True) = Some s1 \<and> StoreDataSDCard s1 = Some s2 \<and>
      sd_files s1 = [''LOG_0000.txt'' \<mapsto> header_line @ crlf @ ''#''] \<and>
      sd_files s2 = [''LOG_0000.txt'' \<mapsto> header_line @ crlf @ ''#'',
                     ''LOG_0001.txt'' \<mapsto> header_line @ crlf @ ''#''] \<and>
      psram s2 = psram (boot True) \<and> memptr s2 = 0 \<and> \<not> record_daq_data s2)"
proof -
  have h: "sd_present (boot True) \<and> \<not> SD_exists (sd_files (boot True)) (log_name 0) \<and>
   \<not> SD_exists (sd_files (boot True)) (log_name 1) \<and> log_name 0 \<noteq> log_name 1"
    by (simp add: boot_fields SD_exists_def log_names)
  with StoreDataSDCard_twice [of "boot True" 0 1]
  obtain s1 s2 k1 k2 where r:
    "StoreDataSDCard (boot True) = Some s1" "StoreDataSDCard s1 = Some s2"
    "next_free (sd_files (boot True)) 0 = Some k1" "next_free (sd_files s1) 0 = Some k2"
    "sd_files s1 = (sd_files (boot True))(log_name k1 \<mapsto> header_line @ crlf @ dumped (boot True))"
    "sd_files s2 = (sd_files s1)(log_name k2 \<mapsto> header_line @ crlf @ dumped (boot True))"
    "psram s2 = psram (boot True)" "memptr s2 = memptr (boot True)"
    "record_daq_data s2 = record_daq_data (boot True)"
    by blast
  have d: "dumped (boot True) = ''#''"
    by (simp add: dumped_def boot_fields)
  from r(3) have k1: "k1 = 0"
    by (simp add: boot_fields next_free_none_used SD_exists_def)
  with r(5) have f1: "sd_files s1 = [''LOG_0000.txt'' \<mapsto> header_line @ crlf @ ''#'']"
    by (simp add: boot_fields log_names d)
  with r(4) have k2: "k2 = Suc 0"
    by (simp add: next_free_one_used SD_exists_def log_names)
  with r(6) f1 have f2: "sd_files s2 = [''LOG_0000.txt'' \<mapsto> header_line @ crlf @ ''#'',
                     ''LOG_0001.txt'' \<mapsto> header_line @ crlf @ ''#'']"
    by (simp add: log_names d)
  from r(1,2,7,8,9) f1 f2 h show ?thesis
    by (simp add: boot_fields)
qed

section \<open>The start signal\<close>

lemma trigger_phase_enter:
  "\<not> record_daq_data s \<Longrightarrow> start_sig_entry t \<Longrightarrow>
   trigger_phase t s = Some (s\<lparr>record_daq_data := True, memptr := 0\<rparr>)"
  by (simp add: trigger_phase_def)

lemma trigger_phase_cases:
  assumes "trigger_phase t s = Some s'"
  obtains (enter) "\<not> record_daq_data s" "start_sig_entry t"
      "s' = s\<lparr>record_daq_data := True, memptr := 0\<rparr>"
  | (drain) d where "\<not> (\<not> record_daq_data s \<and> start_sig_entry t)" "\<not> start_sig_exit t"
      "StoreDataSDCard (s\<lparr>record_daq_data := False\<rparr>) = Some d"
      "s' = d\<lparr>serial := serial d @ [''Data Aquired!'' @ [CHR 0x0A]]\<rparr>"
  | (stay) "\<not> (\<not> record_daq_data s \<and> start_sig_entry t)" "start_sig_exit t" "s' = s"
proof (cases "\<not> record_daq_data s \<and> start_sig_entry t")
  case True
  with assms have "s' = s\<lparr>record_daq_data := True, memptr := 0\<rparr>"
    by (simp add: trigger_phase_def)
  with True show ?thesis by (intro enter) simp_all
next
  case False
  have tp: "trigger_phase t s =
      (if \<not> start_sig_exit t then
        do {
          s' \<leftarrow> StoreDataSDCard (s\<lparr>record_daq_data := False\<rparr>);
          Some (s'\<lparr>serial := serial s' @ [''Data Aquired!'' @ [CHR 0x0A]]\<rparr>)
        }
      else Some s)"
    unfolding trigger_phase_def by (rule if_not_P [OF False])
  show ?thesis
  proof (cases "start_sig_exit t")
    case True
    with assms [unfolded tp] have "s' = s" by simp
    with False True show ?thesis by (intro stay)
  next
    case nx: False
    from assms [unfolded tp] nx
    have "StoreDataSDCard (s\<lparr>record_daq_data := False\<rparr>) \<bind>
        (\<lambda>d. Some (d\<lparr>serial := serial d @ [''Data Aquired!'' @ [CHR 0x0A]]\<rparr>)) = Some s'"
      by simp
    then obtain d where
      "StoreDataSDCard (s\<lparr>record_daq_data := False\<rparr>) = Some d"
      "s' = d\<lparr>serial := serial d @ [''Data Aquired!'' @ [CHR 0x0A]]\<rparr>"
      unfolding bind_eq_Some_conv by blast
    with False nx show ?thesis by (intro drain)
  qed
qed

lemma trigger_phase_entered:
  assumes "trigger_phase t s = Some s'" "\<not> record_daq_data s" "record_daq_data s'"
  shows "start_sig_entry t \<and> s' = s\<lparr>record_daq_data := True, memptr := 0\<rparr>"
  using assms(1)
proof (cases rule: trigger_phase_cases)
  case enter
  then show ?thesis by simp
next
  case (drain d)
  from StoreDataSDCard_frame [OF drain(3)] drain(4) assms(3) show ?thesis by simp
next
  case stay
  with assms show ?thesis by simp
qed

lemma trigger_phase_drained:
  assumes "trigger_phase t s = Some s'" "serial s' \<noteq> serial s"
  shows "\<not> record_daq_data s' \<and> \<not> start_sig_exit t \<and> \<not> (\<not> record_daq_data s \<and> start_sig_entry t)"
  using assms(1)
proof (cases rule: trigger_phase_cases)
  case enter
  with assms show ?thesis by simp
next
  case (drain d)
  from StoreDataSDCard_frame [OF drain(3)] drain show ?thesis by simp
next
  case stay
  with assms show ?thesis by simp
qed

lemma trigger_phase_level:
  assumes "trigger_phase t s = Some s'" "start_sig_entry t = start_sig_exit t"
  shows "record_daq_data s' = start_sig_entry t"
  using assms(1)
proof (cases rule: trigger_phase_cases)
  case enter
  then show ?thesis by simp
next
  case (drain d)
  from StoreDataSDCard_frame [OF drain(3)] drain assms(2) show ?thesis by simp
next
  case stay
  with assms show ?thesis by auto
qed

lemma sample_phase_recording [simp]:
  "record_daq_data (sample_phase t s) = record_daq_data s"
  by (simp add: sample_phase_def Let_def)

text \<open>
  C7. A pass that finds the logger idle and the start signal high at the entry test
  enters Recording, with \<open>memptr = 0\<close>, whatever the line reads at the exit test: the
  exit test is the \<open>else\<close> branch and is not evaluated. A pass that enters leaves the
  serial port and the card untouched, so it did not drain; a pass that drains (it prints,
  so \<open>serial\<close> changes) ends idle and was not an entering pass.
\<close>

theorem entry_excludes_exit:
  "(\<not> record_daq_data s \<and> start_sig_entry t \<longrightarrow>
      trigger_phase t s = Some (s\<lparr>record_daq_data := True, memptr := 0\<rparr>))
   \<and> (trigger_phase t s = Some s' \<and> \<not> record_daq_data s \<and> record_daq_data s' \<longrightarrow>
      start_sig_entry t \<and> memptr s' = 0 \<and> serial s' = serial s \<and> sd_files s' = sd_files s)
   \<and> (trigger_phase t s = Some s' \<and> serial s' \<noteq> serial s \<longrightarrow>
      \<not> record_daq_data s' \<and> \<not> start_sig_exit t \<and>
      \<not> (\<not> record_daq_data s \<and> start_sig_entry t))"
proof (intro conjI impI)
  assume "\<not> record_daq_data s \<and> start_sig_entry t"
  then show "trigger_phase t s = Some (s\<lparr>record_daq_data := True, memptr := 0\<rparr>)"
    by (simp add: trigger_phase_enter)
next
  assume a: "trigger_phase t s = Some s' \<and> \<not> record_daq_data s \<and> record_daq_data s'"
  with trigger_phase_entered [of t s s']
  have e: "start_sig_entry t \<and> s' = s\<lparr>record_daq_data := True, memptr := 0\<rparr>" by blast
  then show "start_sig_entry t" "memptr s' = 0" "serial s' = serial s" "sd_files s' = sd_files s"
    by simp_all
next
  assume a: "trigger_phase t s = Some s' \<and> serial s' \<noteq> serial s"
  with trigger_phase_drained [of t s s']
  show "\<not> record_daq_data s'" "\<not> start_sig_exit t" "\<not> (\<not> record_daq_data s \<and> start_sig_entry t)"
    by blast+
qed

theorem entry_excludes_exit_witness:
  "\<not> record_daq_data (boot True) \<and> start_sig_entry (tick_at 100 True False) \<and>
   \<not> start_sig_exit (tick_at 100 True False) \<and>
   (\<exists>s'. trigger_phase (tick_at 100 True False) (boot True) = Some s' \<and>
      record_daq_data s' \<and> memptr s' = 0 \<and> serial s' = serial (boot True) \<and>
      sd_files s' = sd_files (boot True)) \<and>
   (\<exists>s'. trigger_phase (tick_at 100 False False) (boot True) = Some s' \<and>
      serial s' \<noteq> serial (boot True) \<and> \<not> record_daq_data s')"
proof -
  let ?s = "boot True" and ?t = "tick_at 100 True False"
  have h: "\<not> record_daq_data ?s \<and> start_sig_entry ?t" "\<not> start_sig_exit ?t"
    by (simp_all add: boot_fields tick_fields)
  with entry_excludes_exit [of ?s ?t]
  have e: "trigger_phase ?t ?s = Some (?s\<lparr>record_daq_data := True, memptr := 0\<rparr>)" by blast
  with h entry_excludes_exit [of ?s ?t "?s\<lparr>record_daq_data := True, memptr := 0\<rparr>"]
  have 1: "\<exists>s'. trigger_phase ?t ?s = Some s' \<and>
      record_daq_data s' \<and> memptr s' = 0 \<and> serial s' = serial ?s \<and> sd_files s' = sd_files ?s"
    by simp
  from drain_creates [of "?s\<lparr>record_daq_data := False\<rparr>" 0]
  obtain d where d: "StoreDataSDCard (?s\<lparr>record_daq_data := False\<rparr>) = Some d"
    by (auto simp: boot_fields next_free_none_used SD_exists_def)
  define s' where "s' = d\<lparr>serial := serial d @ [''Data Aquired!'' @ [CHR 0x0A]]\<rparr>"
  from StoreDataSDCard_serial [OF d]
  have ne: "serial s' \<noteq> serial ?s"
    by (simp add: s'_def boot_fields)
  have tp: "trigger_phase (tick_at 100 False False) ?s = Some s'"
    by (simp add: trigger_phase_def tick_fields boot_fields d s'_def)
  with ne entry_excludes_exit [of ?s "tick_at 100 False False" s']
  have "\<not> record_daq_data s'" by blast
  with tp ne have 2: "\<exists>s'. trigger_phase (tick_at 100 False False) ?s = Some s' \<and>
      serial s' \<noteq> serial ?s \<and> \<not> record_daq_data s'" by blast
  from h 1 2 show ?thesis by blast
qed

text \<open>
  C1, at the failing input. The logger is idle after \<open>setup()\<close> and the start signal
  reads low on two passes in a row. No episode was recorded, yet each pass calls
  \<open>StoreDataSDCard\<close>: the first creates \<open>LOG_0000.txt\<close>, the second
  \<open>LOG_0001.txt\<close>, each holding the header line and the byte \<open>psram[0]\<close>, and each
  prints \<open>Data Aquired!\<close>.
\<close>

theorem idle_low_pass_drains:
  "\<exists>s1 s2. loop (tick_at 100 False False) (boot True) = Some s1 \<and>
      \<not> record_daq_data s1 \<and>
      sd_files s1 = [''LOG_0000.txt'' \<mapsto> header_line @ crlf @ ''#''] \<and>
      last (serial s1) = ''Data Aquired!'' @ [CHR 0x0A] \<and>
      loop (tick_at 200 False False) s1 = Some s2 \<and>
      \<not> record_daq_data s2 \<and>
      sd_files s2 = [''LOG_0000.txt'' \<mapsto> header_line @ crlf @ ''#'',
                     ''LOG_0001.txt'' \<mapsto> header_line @ crlf @ ''#'']"
proof -
  let ?b = "(boot True)\<lparr>record_daq_data := False\<rparr>"
  from drain_creates [of ?b 0]
  obtain d1 where d1: "StoreDataSDCard ?b = Some d1"
    "sd_files d1 = [''LOG_0000.txt'' \<mapsto> header_line @ crlf @ ''#'']"
    "psram d1 = (\<lambda>_. CHR ''#'')" "memptr d1 = 0" "\<not> record_daq_data d1" "sd_present d1"
    by (auto simp: boot_fields next_free_none_used SD_exists_def log_names dumped_def)
  define s1 where "s1 = d1\<lparr>serial := serial d1 @ [''Data Aquired!'' @ [CHR 0x0A]]\<rparr>"
  have l1: "loop (tick_at 100 False False) (boot True) = Some s1"
    unfolding s1_def by (rule loop_drain) (simp_all add: tick_fields boot_fields d1)
  have s1: "sd_files s1 = [''LOG_0000.txt'' \<mapsto> header_line @ crlf @ ''#'']"
    "psram s1 = (\<lambda>_. CHR ''#'')" "memptr s1 = 0" "\<not> record_daq_data s1" "sd_present s1"
    "last (serial s1) = ''Data Aquired!'' @ [CHR 0x0A]"
    by (simp_all add: s1_def d1)
  from drain_creates [of "s1\<lparr>record_daq_data := False\<rparr>" 1]
  obtain d2 where d2: "StoreDataSDCard (s1\<lparr>record_daq_data := False\<rparr>) = Some d2"
    "sd_files d2 = [''LOG_0000.txt'' \<mapsto> header_line @ crlf @ ''#'',
                     ''LOG_0001.txt'' \<mapsto> header_line @ crlf @ ''#'']"
    "\<not> record_daq_data d2"
    by (auto simp: s1 next_free_one_used SD_exists_def log_names dumped_def)
  define s2 where "s2 = d2\<lparr>serial := serial d2 @ [''Data Aquired!'' @ [CHR 0x0A]]\<rparr>"
  have l2: "loop (tick_at 200 False False) s1 = Some s2"
    unfolding s2_def by (rule loop_drain) (simp_all add: tick_fields s1 d2)
  have "sd_files s2 = [''LOG_0000.txt'' \<mapsto> header_line @ crlf @ ''#'',
                     ''LOG_0001.txt'' \<mapsto> header_line @ crlf @ ''#'']" "\<not> record_daq_data s2"
    by (simp_all add: s2_def d2)
  with l1 l2 s1 show ?thesis by blast
qed

section \<open>Transitions and edges\<close>

lemma sample_phase_frame [simp]:
  "sd_present (sample_phase t s) = sd_present s" "sd_files (sample_phase t s) = sd_files s"
  "serial (sample_phase t s) = serial s"
  by (simp_all add: sample_phase_def Let_def)

lemma sample_phase_idle: "\<not> record_daq_data s \<Longrightarrow> sample_phase t s = s"
  by (simp add: sample_phase_def)

lemma trigger_phase_stay:
  "record_daq_data s \<Longrightarrow> start_sig_exit t \<Longrightarrow> trigger_phase t s = Some s"
  by (simp add: trigger_phase_def)

lemma trigger_phase_drain:
  assumes "\<not> (\<not> record_daq_data s \<and> start_sig_entry t)" "\<not> start_sig_exit t"
    "StoreDataSDCard (s\<lparr>record_daq_data := False\<rparr>) = Some d"
  shows "trigger_phase t s = Some (d\<lparr>serial := serial d @ [''Data Aquired!'' @ [CHR 0x0A]]\<rparr>)"
  unfolding trigger_phase_def if_not_P [OF assms(1)] using assms(2,3) by simp

lemma entries_edges:
  "entries ts s = Some es \<Longrightarrow> \<forall>t\<in>set ts. start_sig_entry t = start_sig_exit t \<Longrightarrow>
   length es = rising_edges (record_daq_data s) (map start_sig_entry ts) \<and>
   (\<forall>e\<in>set es. record_daq_data e \<and> memptr e = 0)"
proof (induction ts arbitrary: s es)
  case Nil
  then show ?case by simp
next
  case (Cons t ts)
  from Cons.prems(1) obtain s1 rest where
    s1: "trigger_phase t s = Some s1" and
    rest: "entries ts (sample_phase t s1) = Some rest" and
    es: "es = (if \<not> record_daq_data s \<and> record_daq_data s1 then s1 # rest else rest)"
    by (auto simp: bind_eq_Some_conv)
  from Cons.prems(2) have stable: "start_sig_entry t = start_sig_exit t"
    and "\<forall>t\<in>set ts. start_sig_entry t = start_sig_exit t" by simp_all
  from Cons.IH [OF rest this(2)]
  have IH: "length rest = rising_edges (record_daq_data s1) (map start_sig_entry ts)"
    "\<forall>e\<in>set rest. record_daq_data e \<and> memptr e = 0" by simp_all
  have lvl: "record_daq_data s1 = start_sig_entry t"
    by (rule trigger_phase_level [OF s1 stable])
  show ?case
  proof (cases "\<not> record_daq_data s \<and> record_daq_data s1")
    case True
    with trigger_phase_entered [OF s1] have "memptr s1 = 0" by simp
    with True es IH lvl show ?thesis by simp
  next
    case False
    with es IH lvl show ?thesis by auto
  qed
qed

lemma entries_transitions: "entries ts s = Some es \<Longrightarrow> transitions ts s = length es"
proof (induction ts arbitrary: s es)
  case Nil
  then show ?case by simp
next
  case (Cons t ts)
  from Cons.prems obtain s1 rest where
    s1: "trigger_phase t s = Some s1" and
    rest: "entries ts (sample_phase t s1) = Some rest" and
    es: "es = (if \<not> record_daq_data s \<and> record_daq_data s1 then s1 # rest else rest)"
    by (auto simp: bind_eq_Some_conv)
  from Cons.IH [OF rest] s1 es show ?case by simp
qed

lemma filter_distinct_length:
  "distinct (map f ks) \<Longrightarrow> length ks \<le> Suc (length (filter (\<lambda>k. f k \<noteq> x) ks))"
proof (induction ks)
  case Nil
  then show ?case by simp
next
  case (Cons k ks)
  show ?case
  proof (cases "f k = x")
    case True
    with Cons.prems have "\<forall>k'\<in>set ks. f k' \<noteq> x" by (auto simp: image_iff)
    then have "filter (\<lambda>k. f k \<noteq> x) ks = ks" by (simp add: filter_id_conv)
    with True show ?thesis by simp
  next
    case False
    with Cons show ?thesis by simp
  qed
qed

text \<open>A run returns when the card is present and it has at least as many distinct unused
  names as the run has passes that read the start signal low at the exit test: each drain
  takes one name.\<close>

lemma entries_total:
  "sd_present s \<Longrightarrow> distinct (map log_name ks) \<Longrightarrow>
   list_all (\<lambda>k. \<not> SD_exists (sd_files s) (log_name k)) ks \<Longrightarrow>
   length (filter (\<lambda>t. \<not> start_sig_exit t) ts) \<le> length ks \<Longrightarrow>
   \<exists>es. entries ts s = Some es"
proof (induction ts arbitrary: s ks)
  case Nil
  show ?case by simp
next
  case (Cons t ts)
  have "\<exists>s1 ks'. trigger_phase t s = Some s1 \<and> sd_present s1 \<and> distinct (map log_name ks') \<and>
      list_all (\<lambda>k. \<not> SD_exists (sd_files s1) (log_name k)) ks' \<and>
      length (filter (\<lambda>t. \<not> start_sig_exit t) ts) \<le> length ks'"
  proof (cases "\<not> record_daq_data s \<and> start_sig_entry t")
    case True
    then have "trigger_phase t s = Some (s\<lparr>record_daq_data := True, memptr := 0\<rparr>)"
      by (simp add: trigger_phase_enter)
    moreover from Cons.prems(4) have "length (filter (\<lambda>t. \<not> start_sig_exit t) ts) \<le> length ks"
      by (simp split: if_splits)
    ultimately show ?thesis using Cons.prems(1-3)
      by (intro exI [of _ "s\<lparr>record_daq_data := True, memptr := 0\<rparr>"] exI [of _ ks]) simp
  next
    case False
    show ?thesis
    proof (cases "start_sig_exit t")
      case True
      have "trigger_phase t s = Some s"
        unfolding trigger_phase_def if_not_P [OF False] using True by simp
      moreover from Cons.prems(4) True
      have "length (filter (\<lambda>t. \<not> start_sig_exit t) ts) \<le> length ks" by simp
      ultimately show ?thesis using Cons.prems(1-3) by blast
    next
      case nx: False
      with Cons.prems(4) obtain k0 ks0 where ks: "ks = k0 # ks0"
        and len: "length (filter (\<lambda>t. \<not> start_sig_exit t) ts) \<le> length ks0"
        by (cases ks) auto
      let ?s = "s\<lparr>record_daq_data := False\<rparr>"
      from Cons.prems(3) ks have "\<not> SD_exists (sd_files ?s) (log_name k0)" by simp
      from next_free_least [OF this, of 0]
      obtain k where k: "next_free (sd_files ?s) 0 = Some k"
        "\<not> SD_exists (sd_files ?s) (log_name k)" by auto
      from drain_creates [of ?s k] Cons.prems(1) k
      obtain d where d: "StoreDataSDCard ?s = Some d"
        "sd_files d = (sd_files s)(log_name k \<mapsto> header_line @ crlf @ dumped ?s)"
        "sd_present d"
        by auto
      let ?s1 = "d\<lparr>serial := serial d @ [''Data Aquired!'' @ [CHR 0x0A]]\<rparr>"
      let ?ks = "filter (\<lambda>j. log_name j \<noteq> log_name k) ks"
      have tp: "trigger_phase t s = Some ?s1"
        by (rule trigger_phase_drain [OF False nx d(1)])
      have "distinct (map log_name ?ks)"
        using Cons.prems(2) by (simp add: distinct_map_filter)
      moreover have "list_all (\<lambda>j. \<not> SD_exists (sd_files ?s1) (log_name j)) ?ks"
        using Cons.prems(3) by (auto simp: list_all_iff d(2) SD_exists_upd)
      moreover from filter_distinct_length [OF Cons.prems(2), of "log_name k"] ks len
      have "length (filter (\<lambda>t. \<not> start_sig_exit t) ts) \<le> length ?ks" by simp
      ultimately show ?thesis using tp d(3)
        by (intro exI [of _ ?s1] exI [of _ ?ks]) simp
    qed
  qed
  then obtain s1 ks' where s1: "trigger_phase t s = Some s1" "sd_present s1"
    "distinct (map log_name ks')"
    "list_all (\<lambda>k. \<not> SD_exists (sd_files s1) (log_name k)) ks'"
    "length (filter (\<lambda>t. \<not> start_sig_exit t) ts) \<le> length ks'"
    by blast
  from Cons.IH [of "sample_phase t s1" ks'] s1(2-5)
  obtain rest where "entries ts (sample_phase t s1) = Some rest" by auto
  with s1(1) show ?case by simp
qed

text \<open>
  C6, as the claim states it, fails. With no card, the waveform high, low, high has two
  rising edges, but the pass that reads low calls \<open>StoreDataSDCard\<close>, which never
  returns: the logger takes one transition only. And the line is read twice in a pass
  that finds the logger idle: when it reads low at the entry test and high at the exit
  test, the signal has risen but the pass takes no transition.
\<close>

theorem transitions_miss_rising_edges:
  "transitions [tick_at 100 True True, tick_at 200 False False, tick_at 300 True True]
      (boot False) = 1
   \<and> rising_edges (record_daq_data (boot False))
        (map start_sig_entry
          [tick_at 100 True True, tick_at 200 False False, tick_at 300 True True]) = 2
   \<and> start_sig_reads (tick_at 100 False True) (boot True) = [False, True]
   \<and> rising_edges (record_daq_data (boot True)) [False, True] = 1
   \<and> transitions [tick_at 100 False True] (boot True) = 0"
proof -
  let ?a = "(boot False)\<lparr>record_daq_data := True, memptr := 0\<rparr>"
  have p1: "trigger_phase (tick_at 100 True True) (boot False) = Some ?a"
    by (simp add: trigger_phase_enter boot_fields tick_fields)
  have s1: "sample_phase (tick_at 100 True True) ?a = ?a"
    by (simp add: sample_phase_def sample_due_def SAMPLE_PERIOD_USEC_def boot_fields tick_fields)
  have "StoreDataSDCard (?a\<lparr>record_daq_data := False\<rparr>) = None"
    by (rule StoreDataSDCard_no_card) (simp add: boot_fields)
  then have p2: "trigger_phase (tick_at 200 False False) ?a = None"
    by (simp add: trigger_phase_def tick_fields)
  have 1: "transitions [tick_at 100 True True, tick_at 200 False False, tick_at 300 True True]
      (boot False) = 1"
    by (simp add: p1 s1 p2 boot_fields)
  have 2: "rising_edges (record_daq_data (boot False))
        (map start_sig_entry
          [tick_at 100 True True, tick_at 200 False False, tick_at 300 True True]) = 2"
    by (simp add: boot_fields tick_fields)
  have 3: "start_sig_reads (tick_at 100 False True) (boot True) = [False, True]"
    by (simp add: start_sig_reads_def boot_fields tick_fields)
  have 4: "rising_edges (record_daq_data (boot True)) [False, True] = 1"
    by (simp add: boot_fields)
  have "trigger_phase (tick_at 100 False True) (boot True) = Some (boot True)"
    by (simp add: trigger_phase_def boot_fields tick_fields)
  then have 5: "transitions [tick_at 100 False True] (boot True) = 0"
    by (simp add: boot_fields)
  from 1 2 3 4 5 show ?thesis by blast
qed

text \<open>
  C6, amended. Let the card be present with enough distinct unused names for the drains
  of the run, and let the start signal be steady within each pass (the entry test and the
  exit test read the same level). Then the run returns, the number of Idle-to-Recording
  transitions equals the number of rising edges of the sampled start signal (the level
  before the first pass being the recording flag, low after \<open>setup()\<close>), and right
  after each such transition the logger is recording with \<open>memptr = 0\<close>.
\<close>

theorem transitions_equal_rising_edges:
  "sd_present s \<Longrightarrow> list_all (\<lambda>t. start_sig_entry t = start_sig_exit t) ts \<Longrightarrow>
   distinct (map log_name ks) \<Longrightarrow>
   list_all (\<lambda>k. \<not> SD_exists (sd_files s) (log_name k)) ks \<Longrightarrow>
   length (filter (\<lambda>t. \<not> start_sig_exit t) ts) \<le> length ks \<Longrightarrow>
   \<exists>es. entries ts s = Some es \<and> transitions ts s = length es \<and>
     length es = rising_edges (record_daq_data s) (map start_sig_entry ts) \<and>
     list_all (\<lambda>e. record_daq_data e \<and> memptr e = 0) es"
proof -
  assume card: "sd_present s"
    and steady: "list_all (\<lambda>t. start_sig_entry t = start_sig_exit t) ts"
    and names: "distinct (map log_name ks)"
      "list_all (\<lambda>k. \<not> SD_exists (sd_files s) (log_name k)) ks"
      "length (filter (\<lambda>t. \<not> start_sig_exit t) ts) \<le> length ks"
  from entries_total [OF card names] obtain es where es: "entries ts s = Some es" ..
  from steady have "\<forall>t\<in>set ts. start_sig_entry t = start_sig_exit t"
    by (simp add: list_all_iff)
  from entries_edges [OF es this] entries_transitions [OF es] es
  show ?thesis by (auto simp: list_all_iff)
qed

theorem transitions_equal_rising_edges_witness:
  "sd_present (boot True) \<and>
   list_all (\<lambda>t. start_sig_entry t = start_sig_exit t) pulses \<and>
   distinct (map log_name [0]) \<and>
   list_all (\<lambda>k. \<not> SD_exists (sd_files (boot True)) (log_name k)) [0] \<and>
   length (filter (\<lambda>t. \<not> start_sig_exit t) pulses) \<le> length [0 :: nat] \<and>
   map start_sig_entry pulses = [True, True, False, True] \<and>
   rising_edges (record_daq_data (boot True)) (map start_sig_entry pulses) = 2 \<and>
   transitions pulses (boot True) = 2 \<and>
   (\<exists>es. entries pulses (boot True) = Some es \<and> length es = 2 \<and>
      list_all (\<lambda>e. record_daq_data e \<and> memptr e = 0) es)"
proof -
  have h: "sd_present (boot True)"
    "list_all (\<lambda>t. start_sig_entry t = start_sig_exit t) pulses"
    "distinct (map log_name [0])"
    "list_all (\<lambda>k. \<not> SD_exists (sd_files (boot True)) (log_name k)) [0]"
    "length (filter (\<lambda>t. \<not> start_sig_exit t) pulses) \<le> length [0 :: nat]"
    by (simp_all add: boot_fields pulses_def tick_fields SD_exists_def)
  have lv: "map start_sig_entry pulses = [True, True, False, True]"
    by (simp add: pulses_def tick_fields)
  then have r: "rising_edges (record_daq_data (boot True)) (map start_sig_entry pulses) = 2"
    by (simp add: boot_fields)
  from transitions_equal_rising_edges [OF h]
  obtain es where "entries pulses (boot True) = Some es"
    "transitions pulses (boot True) = length es"
    "length es = rising_edges (record_daq_data (boot True)) (map start_sig_entry pulses)"
    "list_all (\<lambda>e. record_daq_data e \<and> memptr e = 0) es"
    by blast
  with h lv r show ?thesis by auto
qed

section \<open>What a drain writes\<close>

lemma dumped_length: "length (dumped s) = nat (memptr s + 1)"
  by (simp add: dumped_def)

text \<open>
  C4, at the failing input. The loop of \<open>StoreDataSDCard\<close> runs while
  \<open>i <= memptr\<close>, so it writes \<open>memptr + 1\<close> bytes. After one sample
  (\<open>memptr = 39\<close>) the drain writes 40 bytes after the header line: the 39 bytes of
  the record and then \<open>psram[39]\<close>, the zero byte that \<open>sprintf\<close> stored behind it.
\<close>

theorem drain_writes_one_byte_more:
  "(\<forall>s. length (dumped s) = nat (memptr s + 1)) \<and>
   (\<exists>s1 s2. loop (tick_at 1000 True True) (boot True) = Some s1 \<and> memptr s1 = 39 \<and>
      take 39 (dumped s1) = ''0000001000,16777215,1,0,1023,0000,0512'' @ [CHR 0x0A] \<and>
      length (dumped s1) = 40 \<and>
      loop (tick_at 1100 False False) s1 = Some s2 \<and>
      sd_files s2 = [''LOG_0000.txt'' \<mapsto> header_line @ crlf @
         ''0000001000,16777215,1,0,1023,0000,0512'' @ [CHR 0x0A, CHR 0x00]])"
proof -
  from loop_first_sample [of True True]
  obtain s1 where s1: "loop (tick_at 1000 True True) (boot True) = Some s1"
    "record_daq_data s1" "memptr s1 = 39" "sd_present s1" "sd_files s1 = Map.empty"
    "map (psram s1) [0..<40] = ''0000001000,16777215,1,0,1023,0000,0512'' @ [CHR 0x0A, CHR 0x00]"
    by blast
  have d: "dumped s1 = ''0000001000,16777215,1,0,1023,0000,0512'' @ [CHR 0x0A, CHR 0x00]"
    using s1(6) by (simp add: dumped_def s1(3))
  from drain_creates [of "s1\<lparr>record_daq_data := False\<rparr>" 0]
  obtain d1 where d1: "StoreDataSDCard (s1\<lparr>record_daq_data := False\<rparr>) = Some d1"
    "sd_files d1 = [''LOG_0000.txt'' \<mapsto> header_line @ crlf @ dumped s1]"
    by (auto simp: s1 next_free_none_used SD_exists_def log_names dumped_def)
  define s2 where "s2 = d1\<lparr>serial := serial d1 @ [''Data Aquired!'' @ [CHR 0x0A]]\<rparr>"
  have l2: "loop (tick_at 1100 False False) s1 = Some s2"
    unfolding s2_def by (rule loop_drain) (simp_all add: tick_fields s1 d1)
  have "sd_files s2 = [''LOG_0000.txt'' \<mapsto> header_line @ crlf @
         ''0000001000,16777215,1,0,1023,0000,0512'' @ [CHR 0x0A, CHR 0x00]]"
    by (simp add: s2_def d1 d)
  moreover have "take 39 (dumped s1) = ''0000001000,16777215,1,0,1023,0000,0512'' @ [CHR 0x0A]"
    "length (dumped s1) = 40"
    by (simp_all add: d)
  ultimately show ?thesis using s1(1,3) l2 dumped_length by blast
qed

section \<open>The missing card\<close>

text \<open>
  C5, at the failing input. \<open>setup()\<close> does not look at the card; \<open>SD.begin\<close> is
  called in \<open>StoreDataSDCard\<close> only. With no card and the start signal high on the
  first pass of \<open>loop()\<close>, the logger enters Recording and appends a sample to
  \<open>psram\<close>, having printed nothing. The card is first looked at when the signal goes
  low: that pass never returns, and the sample is lost.
\<close>

theorem sample_before_card_check:
  "\<exists>s1. loop (tick_at 1000 True True) (boot False) = Some s1 \<and>
      \<not> sd_present s1 \<and> record_daq_data s1 \<and> memptr s1 = 39 \<and>
      map (psram s1) [0..<39] = ''0000001000,16777215,1,0,1023,0000,0512'' @ [CHR 0x0A] \<and>
      serial s1 = [] \<and>
      loop (tick_at 1100 False False) s1 = None"
proof -
  have "\<exists>s'. loop (tick_at 1000 True True) (boot False) = Some s' \<and> record_daq_data s' \<and> memptr s' = 39
     \<and> \<not> sd_present s' \<and> serial s' = []
     \<and> map (psram s') [0..<39] = ''0000001000,16777215,1,0,1023,0000,0512'' @ [CHR 0x0A]"
  by (simp add: loop_def trigger_phase_def sample_phase_def boot_fields tick_fields line1000
      sample_due_def SAMPLE_PERIOD_USEC_def Let_def EXTERNAL_MEM_SIZE_def sprintf_at_def eval_simps)
  then obtain s1 where s1: "loop (tick_at 1000 True True) (boot False) = Some s1"
    "record_daq_data s1" "memptr s1 = 39" "\<not> sd_present s1" "serial s1 = []"
    "map (psram s1) [0..<39] = ''0000001000,16777215,1,0,1023,0000,0512'' @ [CHR 0x0A]"
    by blast
  have "StoreDataSDCard (s1\<lparr>record_daq_data := False\<rparr>) = None"
    by (rule StoreDataSDCard_no_card) (simp add: s1)
  then have "loop (tick_at 1100 False False) s1 = None"
    by (simp add: loop_def trigger_phase_def tick_fields s1)
  with s1 show ?thesis by blast
qed

section \<open>The write cursor and the end of the array\<close>

lemma poke_outside: "a < off \<or> off + length cs \<le> a \<Longrightarrow> poke m off cs a = m a"
  by (induction cs arbitrary: m off) auto

lemma poke_inside: "i < length cs \<Longrightarrow> poke m off cs (off + i) = cs ! i"
proof (induction cs arbitrary: m off i)
  case Nil
  then show ?case by simp
next
  case (Cons c cs)
  show ?case
  proof (cases i)
    case 0
    then show ?thesis by (simp add: poke_outside)
  next
    case (Suc j)
    with Cons.prems have "j < length cs" by simp
    then have "poke (m(off := c)) (off + 1) cs ((off + 1) + j) = cs ! j"
      by (rule Cons.IH)
    with Suc show ?thesis by simp
  qed
qed

lemma length_utoa: "0 < k \<Longrightarrow> n < 10 ^ k \<Longrightarrow> length (utoa n) \<le> k"
proof (induction n arbitrary: k rule: utoa.induct)
  case (1 n)
  show ?case
  proof (cases "n < 10")
    case True
    with "1.prems" show ?thesis by (subst utoa.simps) simp
  next
    case False
    with "1.prems" obtain j where k: "k = Suc j" by (cases k) auto
    with False "1.prems" have "0 < j" by (cases j) auto
    moreover from "1.prems" k have "n div 10 < 10 ^ j" by (simp add: less_mult_imp_div_less mult.commute)
    ultimately have "length (utoa (n div 10)) \<le> j" using "1.IH" [OF False] by blast
    with False k show ?thesis by (subst utoa.simps) simp
  qed
qed

lemma length_fmt_time: "length (fmt_u 10 (us :: 32 word)) = 10"
proof -
  have "unat us < 2 ^ 32"
    by (rule order_less_le_trans [OF unsigned_less]) simp
  then have "unat us < 10 ^ 10" by simp
  then have "length (utoa (unat us)) \<le> 10" by (intro length_utoa) simp_all
  then show ?thesis by (simp add: fmt_u_def length_zero_pad)
qed

lemma sample_line_tick:
  "sample_line (tick_at us a b) = fmt_u 10 us @ '',16777215,1,0,1023,0000,0512'' @ [CHR 0x0A]"
proof -
  have "fmt_u 8 16777215 = ''16777215''" "fmt_u 0 1 = ''1''" "fmt_u 0 0 = ''0''"
    "fmt_u 4 1023 = ''1023''" "fmt_u 4 0 = ''0000''" "fmt_u 4 512 = ''0512''"
    by (simp_all add: fmt_u_def zero_pad_def eval_simps)
  then show ?thesis
    unfolding sample_line_def counter_val
    by (simp add: format_sample_def tick_at_def)
qed

lemma length_sample_line: "length (sample_line (tick_at us a b)) = 39"
  by (simp add: sample_line_tick length_fmt_time)

lemma sample_line_newline: "sample_line (tick_at us a b) ! 38 = CHR 0x0A"
  by (simp add: sample_line_tick nth_append length_fmt_time)

lemma sample_phase_due:
  assumes "record_daq_data s" "sample_due (micros t) (last_time_usec s)"
  shows "last_time_usec (sample_phase t s) = micros t"
    "psram (sample_phase t s) = sprintf_at (psram s) (nat (memptr s)) (sample_line t)"
    "char_count (sample_phase t s) = int (length (sample_line t))"
    "memptr (sample_phase t s) =
       (if memptr s + int (length (sample_line t)) - 1 > EXTERNAL_MEM_SIZE then 0
        else memptr s + int (length (sample_line t)))"
  using assms by (simp_all add: sample_phase_def Let_def)

lemma loop_stay: "record_daq_data s \<Longrightarrow> start_sig_exit t \<Longrightarrow> loop t s = Some (sample_phase t s)"
  by (simp add: loop_def trigger_phase_stay)

lemma recording_pass:
  assumes "record_daq_data s" "last_time_usec s + 400 \<le> us"
  shows "\<exists>s'. loop (tick_at us True True) s = Some s' \<and> record_daq_data s' \<and>
     last_time_usec s' = us \<and>
     psram s' = sprintf_at (psram s) (nat (memptr s)) (sample_line (tick_at us True True)) \<and>
     memptr s' = (if memptr s + 39 - 1 > EXTERNAL_MEM_SIZE then 0 else memptr s + 39) \<and>
     sd_present s' = sd_present s \<and> sd_files s' = sd_files s"
proof -
  let ?t = "tick_at us True True"
  have l: "loop ?t s = Some (sample_phase ?t s)"
    by (rule loop_stay) (simp_all add: assms(1) tick_fields)
  have due: "sample_due (micros ?t) (last_time_usec s)"
    by (simp add: sample_due_def SAMPLE_PERIOD_USEC_def tick_fields assms(2))
  note sp = sample_phase_due [OF assms(1) due, unfolded length_sample_line]
  have "record_daq_data (sample_phase ?t s)" "last_time_usec (sample_phase ?t s) = us"
    "sd_present (sample_phase ?t s) = sd_present s" "sd_files (sample_phase ?t s) = sd_files s"
    by (simp_all add: assms(1) sp(1) tick_fields)
  moreover have "memptr (sample_phase ?t s) =
      (if memptr s + 39 - 1 > EXTERNAL_MEM_SIZE then 0 else memptr s + 39)"
    using sp(4) by simp
  ultimately show ?thesis using l sp(2) by blast
qed

lemma run_snoc: "run (ts @ [t]) s = run ts s \<bind> loop t"
proof (induction ts arbitrary: s)
  case Nil
  show ?case by (cases "loop t s") simp_all
next
  case (Cons a ts)
  show ?case by (cases "loop a s") (simp_all add: Cons.IH)
qed

lemma burst_Suc: "burst (Suc n) = burst n @ [tick_at (1000 + 400 * of_nat n) True True]"
  by (simp add: burst_def)

lemma sprintf_at_beyond:
  "a > off + length txt \<Longrightarrow> sprintf_at m off txt a = m a"
  by (simp add: sprintf_at_def poke_outside)

text \<open>The test \<open>(memptr-1) > EXTERNAL_MEM_SIZE\<close> lets the cursor rest one past the
  capacity.\<close>

lemma wrap_check_off_by_one:
  assumes "record_daq_data s" "sample_due (micros t) (last_time_usec s)"
    "memptr s + int (length (sample_line t)) = EXTERNAL_MEM_SIZE + 1"
  shows "memptr (sample_phase t s) = EXTERNAL_MEM_SIZE + 1"
  using sample_phase_due(4) [OF assms(1,2)] assms(3) by simp

text \<open>From \<open>setup()\<close>, a burst of \<open>n + 1\<close> samples of 39 bytes each leaves the cursor
  at \<open>39 * (n + 1)\<close>, as long as the test has not reset it; nothing behind the cursor
  has been written yet.\<close>

lemma burst_run:
  "n < 215092 \<Longrightarrow>
   \<exists>s. run (burst (Suc n)) (boot p) = Some s \<and> record_daq_data s \<and>
     memptr s = 39 * (int n + 1) \<and> last_time_usec s = 1000 + 400 * of_nat n \<and>
     sd_present s = p \<and> sd_files s = Map.empty \<and>
     (\<forall>a. a > 39 * (n + 1) \<longrightarrow> psram s a = CHR ''#'')"
proof (induction n)
  case 0
  have "\<exists>s'. loop (tick_at 1000 True True) (boot p) = Some s' \<and> record_daq_data s' \<and> memptr s' = 39
     \<and> last_time_usec s' = 1000 \<and> sd_present s' = p \<and> sd_files s' = Map.empty
     \<and> psram s' = sprintf_at (\<lambda>_. CHR ''#'') 0 (sample_line (tick_at 1000 True True))"
  by (simp add: loop_def trigger_phase_def sample_phase_def boot_fields tick_fields length_sample_line
      sample_due_def SAMPLE_PERIOD_USEC_def Let_def EXTERNAL_MEM_SIZE_def)
  then obtain s' where s': "loop (tick_at 1000 True True) (boot p) = Some s'" "record_daq_data s'"
    "memptr s' = 39" "last_time_usec s' = 1000" "sd_present s' = p" "sd_files s' = Map.empty"
    "psram s' = sprintf_at (\<lambda>_. CHR ''#'') 0 (sample_line (tick_at 1000 True True))"
    by blast
  have "\<forall>a. a > 39 * (0 + 1) \<longrightarrow> psram s' a = CHR ''#''"
    by (simp add: s'(7) sprintf_at_beyond length_sample_line)
  with s' show ?case by (simp add: burst_def)
next
  case (Suc n)
  then obtain s where s: "run (burst (Suc n)) (boot p) = Some s" "record_daq_data s"
    "memptr s = 39 * (int n + 1)" "last_time_usec s = 1000 + 400 * of_nat n"
    "sd_present s = p" "sd_files s = Map.empty"
    "\<forall>a. a > 39 * (n + 1) \<longrightarrow> psram s a = CHR ''#''"
    by auto
  let ?us = "1000 + 400 * of_nat (Suc n) :: 32 word"
  have due: "last_time_usec s + 400 \<le> ?us"
    by (simp add: s(4) algebra_simps)
  from recording_pass [OF s(2) due]
  obtain s' where s': "loop (tick_at ?us True True) s = Some s'" "record_daq_data s'"
    "last_time_usec s' = ?us"
    "psram s' = sprintf_at (psram s) (nat (memptr s)) (sample_line (tick_at ?us True True))"
    "memptr s' = (if memptr s + 39 - 1 > EXTERNAL_MEM_SIZE then 0 else memptr s + 39)"
    "sd_present s' = sd_present s" "sd_files s' = sd_files s"
    by auto
  from Suc.prems have "\<not> memptr s + 39 - 1 > EXTERNAL_MEM_SIZE"
    by (simp add: s(3) EXTERNAL_MEM_SIZE_def)
  with s'(5) have m: "memptr s' = 39 * (int (Suc n) + 1)" by (simp add: s(3))
  have "nat (memptr s) = 39 * (n + 1)" by (simp add: s(3) nat_mult_distrib nat_add_distrib)
  then have "\<forall>a. a > 39 * (Suc n + 1) \<longrightarrow> psram s' a = CHR ''#''"
    using s(7) by (simp add: s'(4) sprintf_at_beyond length_sample_line)
  moreover have "run (burst (Suc (Suc n))) (boot p) = Some s'"
    unfolding burst_Suc [of "Suc n"] run_snoc by (simp only: s(1) bind.bind_lunit s'(1))
  ultimately show ?case using s' m s(5,6) by auto
qed

text \<open>
  C2, at the failing input. After 215092 samples the cursor is at
  \<open>8388588 = 39 * 215092\<close>, below the capacity \<open>8388608\<close>, so the test has not reset
  it. The next sample is formatted at the offsets 8388588 to 8388627: its newline goes
  to offset 8388626 and the terminating zero to 8388627, both behind the array (which
  ends at offset 8388607), where \<open>#\<close> stood before. Only then does the test see
  \<open>memptr - 1 = 8388626 > 8388608\<close> and reset the cursor.
\<close>

theorem append_beyond_arena:
  "\<exists>s s'. run (burst 215092) (boot True) = Some s \<and> record_daq_data s \<and>
      memptr s = 8388588 \<and> memptr s \<le> EXTERNAL_MEM_SIZE \<and>
      psram s 8388626 = CHR ''#'' \<and> psram s 8388627 = CHR ''#'' \<and>
      loop (tick_at 86037800 True True) s = Some s' \<and>
      EXTERNAL_MEM_SIZE \<le> 8388626 \<and>
      psram s' 8388626 = CHR 0x0A \<and> psram s' 8388627 = CHR 0x00 \<and>
      memptr s' = 0"
proof -
  from burst_run [of 215091 True]
  obtain s where s: "run (burst 215092) (boot True) = Some s" "record_daq_data s"
    "memptr s = 8388588" "last_time_usec s = 86037400"
    "\<forall>a. a > 8388588 \<longrightarrow> psram s a = CHR ''#''"
    by auto
  let ?t = "tick_at 86037800 True True"
  have due: "last_time_usec s + 400 \<le> 86037800" by (simp add: s(4))
  from recording_pass [OF s(2) due] s(3)
  obtain s' where s': "loop ?t s = Some s'"
    "psram s' = sprintf_at (psram s) 8388588 (sample_line ?t)"
    "memptr s' = 0"
    by (auto simp: EXTERNAL_MEM_SIZE_def)
  have "poke (psram s) 8388588 (sample_line ?t @ [CHR 0x00]) (8388588 + 38) = (sample_line ?t @ [CHR 0x00]) ! 38"
    by (rule poke_inside) (simp add: length_sample_line)
  then have nl: "psram s' 8388626 = CHR 0x0A"
    by (simp add: s'(2) sprintf_at_def nth_append length_sample_line sample_line_newline)
  have "poke (psram s) 8388588 (sample_line ?t @ [CHR 0x00]) (8388588 + 39) = (sample_line ?t @ [CHR 0x00]) ! 39"
    by (rule poke_inside) (simp add: length_sample_line)
  then have z: "psram s' 8388627 = CHR 0x00"
    by (simp add: s'(2) sprintf_at_def nth_append length_sample_line)
  from s(5) have "psram s 8388626 = CHR ''#''" "psram s 8388627 = CHR ''#''" by simp_all
  with s s' nl z show ?thesis by (auto simp: EXTERNAL_MEM_SIZE_def)
qed

end
